theory Spec2Isabelle
  imports Complex_Main "HOL-Library.Word" "HOL-Library.Finite_Map"
begin

section \<open>The value model of jsongoparser (ast.go)\<close>

text \<open>
  The file ast.go declares the node types of the JSON value tree, their two accessors
  (\<open>TokenLiteral\<close> and \<open>String\<close>) and the number classifier \<open>NewNumberLiteral\<close>.
  Each Go struct is a record (or, for the two containers, a single-constructor datatype,
  since they hold further nodes); each method is a function on its receiver. A node is a
  non-nil pointer to its struct, and a container holds non-nil nodes: the nil receiver, on
  which every method of the file panics, is not a node and has no counterpart here.
\<close>

subsection \<open>Tokens\<close>

text \<open>
  The type \<open>Token\<close> is declared outside ast.go, which reads one field of it, \<open>Literal\<close>.
  The record has that field; whatever else a token carries is the record's extension
  \<open>'m\<close>, about which nothing is assumed.
\<close>

record Token =
  Literal :: string

subsection \<open>Nodes\<close>

type_synonym int64 = "64 word"

text \<open>
  A \<open>float64\<close> is its IEEE 754 binary64 bit pattern (what \<open>math.Float64bits\<close> shows):
  bit 63 the sign, bits 62..52 the biased exponent, bits 51..0 the fraction. The zero value
  of the Go type is the pattern \<open>0\<close>, that is \<open>+0.0\<close>.
\<close>

type_synonym float64 = "64 word"

record 'm StringLiteral =
  Token :: "'m Token_scheme"
  Value :: string

record 'm NumberLiteral =
  Token :: "'m Token_scheme"
  Value :: string
  Float :: float64
  Int :: int64
  IsInt :: bool
  IsValid :: bool

record 'm Boolean =
  Token :: "'m Token_scheme"
  Value :: bool

record 'm Null =
  Token :: "'m Token_scheme"

text \<open>
  \<open>Pairs\<close> is a Go \<open>map[string]Value\<close>: a finite map, with no order of its own.
  \<open>Elements\<close> is a slice. \<open>Value\<close> is the interface the six node types implement.
\<close>

datatype 'm Object = Object (Token: "'m Token_scheme") (Pairs: "(string, 'm Value) fmap")
  and 'm Array = Array (Token: "'m Token_scheme") (Elements: "'m Value list")
  and 'm Value =
      ObjectNode "'m Object"
    | ArrayNode "'m Array"
    | StringLiteralNode "'m StringLiteral"
    | NumberLiteralNode "'m NumberLiteral"
    | BooleanNode "'m Boolean"
    | NullNode "'m Null"

section \<open>What ast.go calls in Go's standard library\<close>

text \<open>
  \<open>NewNumberLiteral\<close> and \<open>NumberLiteral.String\<close> call \<open>strconv.ParseInt(s, 10, 64)\<close>,
  \<open>strconv.ParseFloat(s, 64)\<close>, the conversion \<open>float64(i)\<close> and \<open>fmt.Sprintf\<close> with the
  verbs \<open>%d\<close> and \<open>%f\<close>. They are Go's, not the repository's; the definitions of this
  section follow Go's documented behaviour, specialised to the arguments ast.go passes.
  A Go call returning \<open>(v, err)\<close> returns a pair here, \<open>None\<close> being the nil error.
\<close>

datatype error = ErrSyntax | ErrRange

text \<open>A Go string is a sequence of bytes; \<open>byte c\<close> is the number of the byte.\<close>

abbreviation byte :: "char \<Rightarrow> nat" where
  "byte c \<equiv> of_char c"

definition lower :: "char \<Rightarrow> nat" where
  "lower c = or (byte c) (byte CHR ''x'' - byte CHR ''X'')"

definition isDigit :: "char \<Rightarrow> bool" where
  "isDigit c \<longleftrightarrow> byte CHR ''0'' \<le> byte c \<and> byte c \<le> byte CHR ''9''"

subsection \<open>strconv.ParseInt(s, 10, 64)\<close>

text \<open>
  \<open>ParseUint\<close> with base 10 and 64 bits: every byte must be a decimal digit (with a base
  other than 0 an underscore is no separator), and the value must fit 64 bits. The
  accumulator \<open>n\<close> is a \<open>uint64\<close>; \<open>1844674407370955162\<close> is \<open>maxUint64/10 + 1\<close> and
  \<open>- 1\<close> is \<open>maxUint64\<close>.
\<close>

fun ParseUint_loop :: "string \<Rightarrow> 64 word \<Rightarrow> 64 word \<times> error option" where
  "ParseUint_loop [] n = (n, None)"
| "ParseUint_loop (c # cs) n =
     (if isDigit c then
        (if 1844674407370955162 \<le> n then (- 1, Some ErrRange)
         else
           (let n' = n * 10; n1 = n' + word_of_nat (byte c - byte CHR ''0'')
            in if n1 < n' \<or> - 1 < n1 then (- 1, Some ErrRange)
               else ParseUint_loop cs n1))
      else (0, Some ErrSyntax))"

definition ParseUint :: "string \<Rightarrow> 64 word \<times> error option" where
  "ParseUint s = (if s = [] then (0, Some ErrSyntax) else ParseUint_loop s 0)"

text \<open>
  \<open>ParseInt\<close>: an optional sign, then \<open>ParseUint\<close>; the magnitude must be below \<open>2^63\<close>,
  or equal to it under a minus sign. \<open>9223372036854775808\<close> is the cutoff \<open>1 << 63\<close>.
\<close>

definition ParseInt :: "string \<Rightarrow> int64 \<times> error option" where
  "ParseInt s =
     (if s = [] then (0, Some ErrSyntax)
      else
        (let neg = (hd s = CHR ''-'');
             s1 = (if hd s = CHR ''+'' \<or> hd s = CHR ''-'' then tl s else s);
             (un, err) = ParseUint s1
         in if err \<noteq> None \<and> err \<noteq> Some ErrRange then (0, err)
            else if \<not> neg \<and> 9223372036854775808 \<le> un
              then (9223372036854775807, Some ErrRange)
            else if neg \<and> 9223372036854775808 < un
              then (- 9223372036854775808, Some ErrRange)
            else (if neg then - un else un, None)))"

subsection \<open>float64 values and rounding\<close>

definition float64_of_fields :: "bool \<Rightarrow> nat \<Rightarrow> nat \<Rightarrow> float64" where
  "float64_of_fields neg ex fr = word_of_nat ((if neg then 2 ^ 63 else 0) + ex * 2 ^ 52 + fr)"

definition float64_sign :: "float64 \<Rightarrow> bool" where
  "float64_sign f \<longleftrightarrow> 2 ^ 63 \<le> unat f"

definition float64_exp :: "float64 \<Rightarrow> nat" where
  "float64_exp f = (unat f div 2 ^ 52) mod 2 ^ 11"

definition float64_frac :: "float64 \<Rightarrow> nat" where
  "float64_frac f = unat f mod 2 ^ 52"

text \<open>
  A finite float64 is \<open>\<plusminus> m * 2^e\<close> with the significand \<open>m\<close> and exponent \<open>e\<close> below
  (a subnormal has exponent field 0 and no hidden bit).
\<close>

definition float64_mant :: "float64 \<Rightarrow> nat" where
  "float64_mant f = (if float64_exp f = 0 then float64_frac f else 2 ^ 52 + float64_frac f)"

definition float64_pow :: "float64 \<Rightarrow> int" where
  "float64_pow f = int (if float64_exp f = 0 then 1 else float64_exp f) - 1075"

text \<open>The number a float64 stands for; \<open>None\<close> for the infinities and the NaNs.\<close>

definition float64_val :: "float64 \<Rightarrow> rat option" where
  "float64_val f =
     (if float64_exp f = 2047 then None
      else Some ((if float64_sign f then - 1 else 1) * of_nat (float64_mant f)
                 * (if 0 \<le> float64_pow f then 2 ^ nat (float64_pow f)
                    else 1 / 2 ^ nat (- float64_pow f))))"

definition math_Inf :: "bool \<Rightarrow> float64" where
  "math_Inf neg = float64_of_fields neg 2047 0"

definition math_NaN :: float64 where
  "math_NaN = 0x7FF8000000000001"

text \<open>\<open>bitLen n\<close> is the number of bits of \<open>n\<close> (\<open>bits.Len\<close>).\<close>

fun bitLen :: "nat \<Rightarrow> nat" where
  "bitLen n = (if n = 0 then 0 else Suc (bitLen (n div 2)))"

declare bitLen.simps [simp del]

text \<open>The integer nearest to \<open>n / d\<close>, a tie going to the even one.\<close>

definition roundHalfEven :: "nat \<Rightarrow> nat \<Rightarrow> nat" where
  "roundHalfEven n d =
     (let q = n div d; r = n mod d
      in if d < 2 * r \<or> (2 * r = d \<and> odd q) then q + 1 else q)"

text \<open>
  The binary exponent of the rational \<open>n / d\<close> (\<open>n, d > 0\<close>): the \<open>e\<close> with
  \<open>2^e \<le> n / d < 2^(e + 1)\<close>. The bit lengths give it up to one.
\<close>

definition binExp :: "nat \<Rightarrow> nat \<Rightarrow> int" where
  "binExp n d =
     (let e0 = int (bitLen n) - int (bitLen d)
      in if d * 2 ^ nat e0 \<le> n * 2 ^ nat (- e0) then e0 else e0 - 1)"

text \<open>
  IEEE 754 round-to-nearest-even of the rational \<open>\<plusminus> n / d\<close> (\<open>d > 0\<close>) to a float64, with
  the overflow flag: \<open>e\<close> is the binary exponent of \<open>n / d\<close>, raised to \<open>-1022\<close> in the
  subnormal range; \<open>m\<close> is the significand, rounded, which may carry into the next binade.
\<close>

definition roundFloat64 :: "bool \<Rightarrow> nat \<Rightarrow> nat \<Rightarrow> float64 \<times> bool" where
  "roundFloat64 neg n d =
     (if n = 0 then (float64_of_fields neg 0 0, False)
      else
        (let e = max (binExp n d) (- 1022);
             m = roundHalfEven (n * 2 ^ nat (52 - e)) (d * 2 ^ nat (e - 52));
             e' = (if 2 ^ 53 \<le> m then e + 1 else e);
             m' = (if 2 ^ 53 \<le> m then m div 2 else m)
         in if 1023 < e' then (math_Inf neg, True)
            else if m' < 2 ^ 52 then (float64_of_fields neg 0 m', False)
            else (float64_of_fields neg (nat (e' + 1023)) (m' - 2 ^ 52), False)))"

text \<open>
  The conversion \<open>float64(i)\<close> of an int64: Go rounds to the nearest float64, ties to even.
  It cannot overflow.
\<close>

definition float64_of_int64 :: "int64 \<Rightarrow> float64" where
  "float64_of_int64 i = fst (roundFloat64 (sint i < 0) (nat \<bar>sint i\<bar>) 1)"

subsection \<open>strconv.ParseFloat(s, 64)\<close>

text \<open>
  \<open>readFloat\<close> scans a decimal or hexadecimal mantissa and an optional exponent, and
  \<open>special\<close> the spellings of infinity and NaN; \<open>atof64\<close> converts what was read and
  returns the unread rest of the string with it; \<open>ParseFloat\<close> wants the rest empty.
  The scanner's variables keep Go's names. One thing is simplified: Go keeps the first 19
  digits of the mantissa in a \<open>uint64\<close>, with a flag \<open>trunc\<close> for non-zero digits dropped,
  and reads the digits a second time when they matter; here \<open>mantissa\<close> is unbounded and
  holds all of them, and the conversion rounds the exact value once, which is what
  \<open>ParseFloat\<close> documents (the nearest float64, by IEEE 754 unbiased rounding; a value
  that rounds beyond the largest float64 gives an infinity and \<open>ErrRange\<close>).
\<close>

record floatScan =
  underscores :: bool
  sawdot :: bool
  sawdigits :: bool
  nd :: nat
  dp :: int
  mantissa :: nat

fun readFloat_digits :: "nat \<Rightarrow> floatScan \<Rightarrow> string \<Rightarrow> floatScan \<times> string" where
  "readFloat_digits base st [] = (st, [])"
| "readFloat_digits base st (c # cs) =
     (if c = CHR ''_'' then readFloat_digits base (st\<lparr>underscores := True\<rparr>) cs
      else if c = CHR ''.'' then
        (if sawdot st then (st, c # cs)
         else readFloat_digits base (st\<lparr>sawdot := True, dp := int (nd st)\<rparr>) cs)
      else if isDigit c then
        (if c = CHR ''0'' \<and> nd st = 0
         then readFloat_digits base (st\<lparr>sawdigits := True, dp := dp st - 1\<rparr>) cs
         else readFloat_digits base
                (st\<lparr>sawdigits := True, nd := nd st + 1,
                    mantissa := mantissa st * base + (byte c - byte CHR ''0'')\<rparr>) cs)
      else if base = 16 \<and> byte CHR ''a'' \<le> lower c \<and> lower c \<le> byte CHR ''f'' then
        readFloat_digits base
          (st\<lparr>sawdigits := True, nd := nd st + 1,
              mantissa := mantissa st * 16 + (lower c - byte CHR ''a'' + 10)\<rparr>) cs
      else (st, c # cs))"

text \<open>The digits of the exponent; beyond 10000 the exponent stops growing.\<close>

fun readFloat_exp :: "nat \<Rightarrow> bool \<Rightarrow> string \<Rightarrow> nat \<times> bool \<times> string" where
  "readFloat_exp e us [] = (e, us, [])"
| "readFloat_exp e us (c # cs) =
     (if c = CHR ''_'' then readFloat_exp e True cs
      else if isDigit c
      then readFloat_exp (if e < 10000 then e * 10 + (byte c - byte CHR ''0'') else e) us cs
      else (e, us, c # cs))"

text \<open>
  \<open>underscoreOK\<close>: an underscore must stand between two digits, or between a base prefix
  and a digit. The argument \<open>i\<close> of the loop is the class of the previous byte, as in Go.
\<close>

fun underscoreOK_loop :: "bool \<Rightarrow> char \<Rightarrow> string \<Rightarrow> bool" where
  "underscoreOK_loop hex i [] = (i \<noteq> CHR ''_'')"
| "underscoreOK_loop hex i (c # cs) =
     (if isDigit c \<or> hex \<and> byte CHR ''a'' \<le> lower c \<and> lower c \<le> byte CHR ''f''
      then underscoreOK_loop hex CHR ''0'' cs
      else if c = CHR ''_'' then
        (if i \<noteq> CHR ''0'' then False else underscoreOK_loop hex CHR ''_'' cs)
      else if i = CHR ''_'' then False
      else underscoreOK_loop hex CHR ''!'' cs)"

definition underscoreOK :: "string \<Rightarrow> bool" where
  "underscoreOK s =
     (let s1 = (if 1 \<le> length s \<and> (hd s = CHR ''-'' \<or> hd s = CHR ''+'') then tl s else s);
          pre = (2 \<le> length s1 \<and> s1 ! 0 = CHR ''0''
                 \<and> (lower (s1 ! 1) = byte CHR ''b'' \<or> lower (s1 ! 1) = byte CHR ''o''
                      \<or> lower (s1 ! 1) = byte CHR ''x''))
      in if pre
         then underscoreOK_loop (lower (s1 ! 1) = byte CHR ''x'') CHR ''0'' (drop 2 s1)
         else underscoreOK_loop False CHR ''^'' s1)"

text \<open>
  \<open>readFloat s\<close> is \<open>None\<close> where Go's returns \<open>ok = false\<close>, and otherwise the mantissa,
  the exponent (of 10, or of 2 for a hexadecimal mantissa), the sign, whether the mantissa
  is hexadecimal, and the unread rest of \<open>s\<close>.
\<close>

definition readFloat :: "string \<Rightarrow> (nat \<times> int \<times> bool \<times> bool \<times> string) option" where
  "readFloat s =
     (if s = [] then None
      else
        (let neg = (hd s = CHR ''-'');
             s1 = (if hd s = CHR ''+'' \<or> hd s = CHR ''-'' then tl s else s);
             hex = (2 < length s1 \<and> s1 ! 0 = CHR ''0'' \<and> lower (s1 ! 1) = byte CHR ''x'');
             base = (if hex then 16 else 10);
             expChar = (if hex then CHR ''p'' else CHR ''e'');
             (st, r) = readFloat_digits base
                 \<lparr>underscores = False, sawdot = False, sawdigits = False, nd = 0, dp = 0,
                  mantissa = 0\<rparr>
                 (if hex then drop 2 s1 else s1)
         in if \<not> sawdigits st then None
            else
              (let dp1 = (if \<not> sawdot st then int (nd st) else dp st);
                   dp2 = (if hex then dp1 * 4 else dp1);
                   ndMant = (if hex then nd st * 4 else nd st);
                   fin = (\<lambda>dp3 us r3.
                     if us \<and> \<not> underscoreOK (take (length s - length r3) s) then None
                     else Some (mantissa st, (if mantissa st \<noteq> 0 then dp3 - int ndMant else 0),
                                neg, hex, r3))
               in if r \<noteq> [] \<and> lower (hd r) = byte expChar then
                    (let r1 = tl r in
                     if r1 = [] then None
                     else
                       (let esign = (if hd r1 = CHR ''-'' then - 1 else 1);
                            r2 = (if hd r1 = CHR ''+'' \<or> hd r1 = CHR ''-'' then tl r1 else r1)
                        in if r2 = [] \<or> \<not> isDigit (hd r2) then None
                           else
                             (let (e, us, r3) = readFloat_exp 0 (underscores st) r2
                              in fin (dp2 + int e * esign) us r3)))
                  else if hex then None
                  else fin dp2 (underscores st) r)))"

fun commonPrefixLenIgnoreCase :: "string \<Rightarrow> string \<Rightarrow> nat" where
  "commonPrefixLenIgnoreCase (c # cs) (p # ps) =
     (let c' = (if byte CHR ''A'' \<le> byte c \<and> byte c \<le> byte CHR ''Z''
                then byte c + (byte CHR ''a'' - byte CHR ''A'') else byte c)
      in if c' \<noteq> byte p then 0 else Suc (commonPrefixLenIgnoreCase cs ps))"
| "commonPrefixLenIgnoreCase _ _ = 0"

text \<open>The case \<open>'i', 'I'\<close> of \<open>special\<close>, which the case of a sign falls through to.\<close>

definition special_inf :: "bool \<Rightarrow> string \<Rightarrow> (float64 \<times> string) option" where
  "special_inf neg s =
     (let n0 = commonPrefixLenIgnoreCase s ''infinity'';
          n = (if 3 < n0 \<and> n0 < 8 then 3 else n0)
      in if n = 3 \<or> n = 8 then Some (math_Inf neg, drop n s) else None)"

definition special :: "string \<Rightarrow> (float64 \<times> string) option" where
  "special s =
     (if s = [] then None
      else if hd s = CHR ''+'' \<or> hd s = CHR ''-'' then special_inf (hd s = CHR ''-'') (tl s)
      else if hd s = CHR ''i'' \<or> hd s = CHR ''I'' then special_inf False s
      else if hd s = CHR ''n'' \<or> hd s = CHR ''N'' then
        (if commonPrefixLenIgnoreCase s ''nan'' = 3 then Some (math_NaN, drop 3 s) else None)
      else None)"

definition atof64 :: "string \<Rightarrow> float64 \<times> string \<times> error option" where
  "atof64 s =
     (case special s of
        Some (val, r) \<Rightarrow> (val, r, None)
      | None \<Rightarrow>
          (case readFloat s of
             None \<Rightarrow> (0, s, Some ErrSyntax)
           | Some (mant, ex, neg, hex, r) \<Rightarrow>
               (let b = (if hex then 2 else 10);
                    (f, ovf) = roundFloat64 neg (mant * b ^ nat ex) (b ^ nat (- ex))
                in (f, r, if ovf then Some ErrRange else None))))"

definition ParseFloat :: "string \<Rightarrow> float64 \<times> error option" where
  "ParseFloat s =
     (let (f, r, err) = atof64 s
      in if r \<noteq> [] \<and> (err = None \<or> err \<noteq> Some ErrSyntax) then (0, Some ErrSyntax)
         else (f, err))"

subsection \<open>fmt.Sprintf with %d and %f\<close>

definition digitChar :: "nat \<Rightarrow> char" where
  "digitChar d = ''0123456789'' ! d"

fun decimal :: "nat \<Rightarrow> string" where
  "decimal n = (if n < 10 then [digitChar n] else decimal (n div 10) @ [digitChar (n mod 10)])"

declare decimal.simps [simp del]

definition Sprintf_d :: "int64 \<Rightarrow> string" where
  "Sprintf_d i =
     (if sint i < 0 then CHR ''-'' # decimal (nat (- sint i)) else decimal (nat (sint i)))"

text \<open>
  \<open>%f\<close> prints six digits after the point: the value's exact decimal expansion rounded
  there, a tie going to the even digit, behind a minus sign when the sign bit is set.
\<close>

definition Sprintf_f :: "float64 \<Rightarrow> string" where
  "Sprintf_f f =
     (if float64_exp f = 2047
      then (if float64_frac f \<noteq> 0 then ''NaN'' else if float64_sign f then ''-Inf'' else ''+Inf'')
      else
        (let n = roundHalfEven (float64_mant f * 10 ^ 6 * 2 ^ nat (float64_pow f))
                   (2 ^ nat (- float64_pow f))
         in (if float64_sign f then ''-'' else []) @ decimal (n div 10 ^ 6) @ ''.''
            @ map (\<lambda>k. digitChar (n div 10 ^ k mod 10)) [5, 4, 3, 2, 1, 0]))"

section \<open>TokenLiteral\<close>

definition Object_TokenLiteral :: "'m Object \<Rightarrow> string" where
  "Object_TokenLiteral ob = Literal (Object.Token ob)"

definition Array_TokenLiteral :: "'m Array \<Rightarrow> string" where
  "Array_TokenLiteral a = Literal (Array.Token a)"

definition StringLiteral_TokenLiteral :: "'m StringLiteral \<Rightarrow> string" where
  "StringLiteral_TokenLiteral s = Literal (StringLiteral.Token s)"

definition NumberLiteral_TokenLiteral :: "'m NumberLiteral \<Rightarrow> string" where
  "NumberLiteral_TokenLiteral n = Literal (NumberLiteral.Token n)"

definition Boolean_TokenLiteral :: "'m Boolean \<Rightarrow> string" where
  "Boolean_TokenLiteral b = Literal (Boolean.Token b)"

definition Null_TokenLiteral :: "'m Null \<Rightarrow> string" where
  "Null_TokenLiteral n = Literal (Null.Token n)"

text \<open>A call of \<open>TokenLiteral\<close> through the interface goes to the method of the node's type.\<close>

fun TokenLiteral :: "'m Value \<Rightarrow> string" where
  "TokenLiteral (ObjectNode ob) = Object_TokenLiteral ob"
| "TokenLiteral (ArrayNode a) = Array_TokenLiteral a"
| "TokenLiteral (StringLiteralNode s) = StringLiteral_TokenLiteral s"
| "TokenLiteral (NumberLiteralNode n) = NumberLiteral_TokenLiteral n"
| "TokenLiteral (BooleanNode b) = Boolean_TokenLiteral b"
| "TokenLiteral (NullNode n) = Null_TokenLiteral n"

section \<open>The number classifier\<close>

text \<open>
  \<open>NewNumberLiteral\<close> starts from a struct holding the token and its literal, every other
  field at its zero value, and then tries the two parsers in turn.
\<close>

definition NewNumberLiteral :: "'m Token_scheme \<Rightarrow> 'm NumberLiteral" where
  "NewNumberLiteral token =
     (let n = \<lparr>NumberLiteral.Token = token, NumberLiteral.Value = Literal token,
               NumberLiteral.Float = 0, NumberLiteral.Int = 0,
               NumberLiteral.IsInt = False, NumberLiteral.IsValid = False\<rparr>
      in case ParseInt (Literal token) of
           (i, None) \<Rightarrow>
             n\<lparr>NumberLiteral.Int := i, NumberLiteral.Float := float64_of_int64 i,
               NumberLiteral.IsInt := True, NumberLiteral.IsValid := True\<rparr>
         | (i, Some err) \<Rightarrow>
             (case ParseFloat (Literal token) of
                (f, None) \<Rightarrow>
                  n\<lparr>NumberLiteral.Float := f, NumberLiteral.IsInt := False,
                    NumberLiteral.IsValid := True\<rparr>
              | (f, Some err') \<Rightarrow> n\<lparr>NumberLiteral.IsValid := False\<rparr>))"

definition IsValidNumber :: "'m NumberLiteral \<Rightarrow> bool" where
  "IsValidNumber n = NumberLiteral.IsValid n"

section \<open>String\<close>

definition Array_String :: "'m Array \<Rightarrow> string" where
  "Array_String a = ''[]''"

definition StringLiteral_String :: "'m StringLiteral \<Rightarrow> string" where
  "StringLiteral_String s = StringLiteral.Value s"

definition NumberLiteral_String :: "'m NumberLiteral \<Rightarrow> string" where
  "NumberLiteral_String n =
     (if NumberLiteral.IsInt n then Sprintf_d (NumberLiteral.Int n)
      else Sprintf_f (NumberLiteral.Float n))"

definition Boolean_String :: "'m Boolean \<Rightarrow> string" where
  "Boolean_String b = Literal (Boolean.Token b)"

definition Null_String :: "'m Null \<Rightarrow> string" where
  "Null_String n = ''null''"

text \<open>
  \<open>Object.String\<close> ranges over the map \<open>Pairs\<close>. Go leaves the order of a \<open>range\<close> over a
  map unspecified, and it may differ from one loop to the next, so the method has no single
  result: \<open>Object_String ob s\<close> says that \<open>s\<close> is a string a call on \<open>ob\<close> can return.
  The loop itself is \<open>Object_String_loop\<close>, run on the pairs in the order the range yields
  them, each value already displayed: \<open>i\<close> is the loop's counter and \<open>b\<close> the builder.
  \<open>String v s\<close> is the same for a call through the \<open>Value\<close> interface, which for the
  other five node types has one result.
\<close>

fun Object_String_loop :: "nat \<Rightarrow> string \<Rightarrow> (string \<times> string) list \<Rightarrow> string" where
  "Object_String_loop i b [] = b"
| "Object_String_loop i b ((k, vs) # rest) =
     Object_String_loop (i + 1) ((if 0 < i then b @ '', '' else b) @ k @ '': '' @ vs) rest"

inductive Object_String :: "'m Object \<Rightarrow> string \<Rightarrow> bool"
  and String :: "'m Value \<Rightarrow> string \<Rightarrow> bool" where
  Object_String_range:
    "\<lbrakk>distinct ks; set ks = fmdom' (Pairs ob);
      list_all2 (\<lambda>k vs. \<exists>v. fmlookup (Pairs ob) k = Some v \<and> String v vs) ks vss\<rbrakk>
     \<Longrightarrow> Object_String ob (Object_String_loop 0 ''{'' (zip ks vss) @ ''}'')"
| String_Object: "Object_String ob s \<Longrightarrow> String (ObjectNode ob) s"
| String_Array: "String (ArrayNode a) (Array_String a)"
| String_StringLiteral: "String (StringLiteralNode sl) (StringLiteral_String sl)"
| String_NumberLiteral: "String (NumberLiteralNode n) (NumberLiteral_String n)"
| String_Boolean: "String (BooleanNode b) (Boolean_String b)"
| String_Null: "String (NullNode nl) (Null_String nl)"

section \<open>Notions of the specification\<close>

text \<open>
  A literal that is a base-10 integer with no fractional and no exponent part, as the
  specification words it: an optional sign followed by one or more decimal digits.
\<close>

definition isDecimalInteger :: "string \<Rightarrow> bool" where
  "isDecimalInteger s \<longleftrightarrow>
     (let ds = (if s \<noteq> [] \<and> (hd s = CHR ''+'' \<or> hd s = CHR ''-'') then tl s else s)
      in ds \<noteq> [] \<and> list_all isDigit ds)"

text \<open>
  The integer such a literal denotes: the value of its digits in base 10, negated behind a
  minus sign.
\<close>

fun digitsValue :: "nat \<Rightarrow> string \<Rightarrow> nat" where
  "digitsValue v [] = v"
| "digitsValue v (c # cs) = digitsValue (v * 10 + (byte c - byte CHR ''0'')) cs"

definition intValue :: "string \<Rightarrow> int" where
  "intValue s =
     (if s \<noteq> [] \<and> hd s = CHR ''-'' then - int (digitsValue 0 (tl s))
      else int (digitsValue 0 (if s \<noteq> [] \<and> hd s = CHR ''+'' then tl s else s)))"

text \<open>
  What the display of an Object is said to be: the pairs as \<open>key: value\<close>, separated by
  a comma and a space, between braces.
\<close>

fun join :: "string \<Rightarrow> string list \<Rightarrow> string" where
  "join sep [] = []"
| "join sep [x] = x"
| "join sep (x # y # ys) = x @ sep @ join sep (y # ys)"

definition pairs_display :: "(string \<times> string) list \<Rightarrow> string" where
  "pairs_display kvs = ''{'' @ join '', '' (map (\<lambda>(k, vs). k @ '': '' @ vs) kvs) @ ''}''"

section \<open>Facts about the parsers and the rounding\<close>

subsection \<open>The three outcomes of the classifier\<close>

lemma NewNumberLiteral_int:
  "ParseInt (Literal token) = (i, None) \<Longrightarrow>
   NewNumberLiteral token =
     \<lparr>NumberLiteral.Token = token, NumberLiteral.Value = Literal token,
      NumberLiteral.Float = float64_of_int64 i, NumberLiteral.Int = i,
      NumberLiteral.IsInt = True, NumberLiteral.IsValid = True\<rparr>"
  by (simp add: NewNumberLiteral_def)

lemma NewNumberLiteral_float:
  "snd (ParseInt (Literal token)) \<noteq> None \<Longrightarrow> ParseFloat (Literal token) = (f, None) \<Longrightarrow>
   NewNumberLiteral token =
     \<lparr>NumberLiteral.Token = token, NumberLiteral.Value = Literal token,
      NumberLiteral.Float = f, NumberLiteral.Int = 0,
      NumberLiteral.IsInt = False, NumberLiteral.IsValid = True\<rparr>"
  by (cases "ParseInt (Literal token)") (auto simp: NewNumberLiteral_def)

lemma NewNumberLiteral_invalid:
  "snd (ParseInt (Literal token)) \<noteq> None \<Longrightarrow> snd (ParseFloat (Literal token)) \<noteq> None \<Longrightarrow>
   NewNumberLiteral token =
     \<lparr>NumberLiteral.Token = token, NumberLiteral.Value = Literal token,
      NumberLiteral.Float = 0, NumberLiteral.Int = 0,
      NumberLiteral.IsInt = False, NumberLiteral.IsValid = False\<rparr>"
  by (cases "ParseInt (Literal token)"; cases "ParseFloat (Literal token)")
     (auto simp: NewNumberLiteral_def)

lemma NewNumberLiteral_IsInt:
  "NumberLiteral.IsInt (NewNumberLiteral token) = (snd (ParseInt (Literal token)) = None)"
  by (cases "ParseInt (Literal token)"; cases "ParseFloat (Literal token)")
     (auto simp: NewNumberLiteral_def Let_def split: option.splits)


subsection \<open>ParseInt accepts decimal integers only\<close>

lemma ParseUint_loop_digits:
  "snd (ParseUint_loop s n) = None \<Longrightarrow> list_all isDigit s"
  by (induction s arbitrary: n) (auto simp: Let_def split: if_splits)

lemma ParseUint_loop_range:
  "snd (ParseUint_loop s n) = Some ErrRange \<Longrightarrow> fst (ParseUint_loop s n) = - 1"
  by (induction s arbitrary: n) (auto simp: Let_def split: if_splits)

lemma ParseUint_digits:
  "snd (ParseUint s) = None \<Longrightarrow> s \<noteq> [] \<and> list_all isDigit s"
  by (auto simp: ParseUint_def dest: ParseUint_loop_digits split: if_splits)

lemma ParseUint_range:
  "snd (ParseUint s) = Some ErrRange \<Longrightarrow> fst (ParseUint s) = - 1"
  by (auto simp: ParseUint_def dest: ParseUint_loop_range split: if_splits)

lemma ParseInt_ok_ParseUint:
  assumes "snd (ParseInt s) = None"
  shows "s \<noteq> [] \<and> snd (ParseUint (if hd s = CHR ''+'' \<or> hd s = CHR ''-'' then tl s else s)) = None"
proof -
  let ?s1 = "if hd s = CHR ''+'' \<or> hd s = CHR ''-'' then tl s else s"
  have ne: "s \<noteq> []" using assms by (auto simp: ParseInt_def)
  obtain un err where u: "ParseUint ?s1 = (un, err)" by (cases "ParseUint ?s1")
  have "err = None"
  proof (cases err)
    case None
    then show ?thesis .
  next
    case (Some e)
    show ?thesis
    proof (cases e)
      case ErrSyntax
      with Some u assms ne show ?thesis by (simp add: ParseInt_def Let_def)
    next
      case ErrRange
      with Some u have "un = - 1" using ParseUint_range [of ?s1] by simp
      with Some ErrRange u assms ne show ?thesis
        by (simp add: ParseInt_def Let_def split: if_splits)
    qed
  qed
  with u ne show ?thesis by simp
qed

lemma ParseInt_syntax: "snd (ParseInt s) = None \<Longrightarrow> isDecimalInteger s"
  using ParseInt_ok_ParseUint [of s] ParseUint_digits
  by (fastforce simp: isDecimalInteger_def Let_def)

lemma not_digit_chars: "\<not> isDigit CHR ''.''" "\<not> isDigit CHR ''e''" "\<not> isDigit CHR ''E''"
  by (simp_all add: isDigit_def)

lemma isDecimalInteger_no_fraction:
  assumes "isDecimalInteger s"
  shows "CHR ''.'' \<notin> set s \<and> CHR ''e'' \<notin> set s \<and> CHR ''E'' \<notin> set s"
proof -
  let ?ds = "if s \<noteq> [] \<and> (hd s = CHR ''+'' \<or> hd s = CHR ''-'') then tl s else s"
  have d: "list_all isDigit ?ds" using assms by (simp add: isDecimalInteger_def Let_def)
  have "c \<in> set s \<Longrightarrow> c = CHR ''+'' \<or> c = CHR ''-'' \<or> c \<in> set ?ds" for c
    by (cases s) (auto split: if_splits)
  then have "c \<in> set s \<Longrightarrow> c = CHR ''+'' \<or> c = CHR ''-'' \<or> isDigit c" for c
    using d by (auto simp: list_all_iff)
  then show ?thesis using not_digit_chars by fastforce
qed


subsection \<open>ParseInt computes the value of the digits, within the int64 range\<close>

lemma digitsValue_ge: "v \<le> digitsValue v s"
proof (induction s arbitrary: v)
  case Nil
  then show ?case by simp
next
  case (Cons c cs)
  have "v \<le> v * 10 + (byte c - byte CHR ''0'')" by simp
  also have "\<dots> \<le> digitsValue (v * 10 + (byte c - byte CHR ''0'')) cs" by (rule Cons.IH)
  finally show ?case by simp
qed

lemma isDigit_val: "isDigit c \<Longrightarrow> byte c - byte CHR ''0'' \<le> 9"
  by (auto simp: isDigit_def)

lemma ParseUint_step:
  fixes n :: "64 word"
  assumes "d \<le> 9"
  shows "(\<not> 1844674407370955162 \<le> n \<and> \<not> (n * 10 + word_of_nat d < n * 10 \<or> - 1 < n * 10 + word_of_nat d))
         = (unat n * 10 + d < 2 ^ 64)"
    and "unat n * 10 + d < 2 ^ 64 \<Longrightarrow> unat (n * 10 + word_of_nat d) = unat n * 10 + d"
proof -
  have d: "unat (word_of_nat d :: 64 word) = d" using assms by (simp add: unat_of_nat)
  have cut: "(1844674407370955162 \<le> n) = (1844674407370955162 \<le> unat n)"
    by (simp add: word_le_nat_alt)
  have m1: "\<not> (- 1 :: 64 word) < w" for w by simp
  show eq: "unat n * 10 + d < 2 ^ 64 \<Longrightarrow> unat (n * 10 + word_of_nat d) = unat n * 10 + d"
  proof -
    assume lt: "unat n * 10 + d < 2 ^ 64"
    then have "unat n * 10 < 2 ^ 64" by simp
    then have n10: "unat (n * 10) = unat n * 10" by (simp add: unat_word_ariths)
    show ?thesis using lt by (simp add: unat_word_ariths(1) n10 d)
  qed
  show "(\<not> 1844674407370955162 \<le> n \<and> \<not> (n * 10 + word_of_nat d < n * 10 \<or> - 1 < n * 10 + word_of_nat d))
         = (unat n * 10 + d < 2 ^ 64)"
  proof (cases "1844674407370955162 \<le> unat n")
    case True
    then show ?thesis by (simp add: cut)
  next
    case False
    then have "unat n * 10 < 2 ^ 64" by simp
    then have n10: "unat (n * 10) = unat n * 10" by (simp add: unat_word_ariths)
    have "(n * 10 \<le> n * 10 + word_of_nat d) = (unat (n * 10) + unat (word_of_nat d :: 64 word) < 2 ^ 64)"
      by (simp add: no_olen_add_nat)
    then have "(n * 10 + word_of_nat d < n * 10) = (\<not> unat n * 10 + d < 2 ^ 64)"
      by (simp add: n10 d not_le [symmetric])
    then show ?thesis using False by (simp add: cut m1)
  qed
qed

lemma ParseUint_loop_correct:
  "ParseUint_loop s n = (u, None) \<longleftrightarrow>
     list_all isDigit s \<and> digitsValue (unat n) s < 2 ^ 64 \<and> unat u = digitsValue (unat n) s"
proof (induction s arbitrary: n)
  case Nil
  have "unat u < 2 ^ LENGTH(64)" by (rule unsigned_less)
  then have "unat u < 2 ^ 64" by simp
  then show ?case by (auto simp: word_unat_eq_iff)
next
  case (Cons c cs)
  show ?case
  proof (cases "isDigit c")
    case False
    then show ?thesis by simp
  next
    case True
    let ?d = "byte c - byte CHR ''0''"
    note st = ParseUint_step [OF isDigit_val [OF True], of n]
    show ?thesis
    proof (cases "unat n * 10 + ?d < 2 ^ 64")
      case lt: True
      then have ok: "\<not> 1844674407370955162 \<le> n"
        "\<not> (n * 10 + word_of_nat ?d < n * 10 \<or> - 1 < n * 10 + word_of_nat ?d)"
        using st(1) by auto
      have "ParseUint_loop (c # cs) n = ParseUint_loop cs (n * 10 + word_of_nat ?d)"
        using True ok by (simp add: Let_def)
      then show ?thesis
        using Cons.IH [of "n * 10 + word_of_nat ?d"] True st(2) [OF lt] by simp
    next
      case ge: False
      then have bad: "1844674407370955162 \<le> n
        \<or> (n * 10 + word_of_nat ?d < n * 10 \<or> - 1 < n * 10 + word_of_nat ?d)"
        using st(1) by auto
      have "snd (ParseUint_loop (c # cs) n) = Some ErrRange"
        using True bad by (auto simp: Let_def)
      moreover have "\<not> digitsValue (unat n * 10 + ?d) cs < 2 ^ 64"
        using ge digitsValue_ge [of "unat n * 10 + ?d" cs] by linarith
      ultimately show ?thesis by auto
    qed
  qed
qed


lemma ParseUint_correct:
  "ParseUint s = (u, None) \<longleftrightarrow>
     s \<noteq> [] \<and> list_all isDigit s \<and> digitsValue 0 s < 2 ^ 64 \<and> unat u = digitsValue 0 s"
  using ParseUint_loop_correct [of s 0 u] by (auto simp: ParseUint_def)

lemma sint_word_of_int64:
  "- (2 ^ 63) \<le> k \<Longrightarrow> k < 2 ^ 63 \<Longrightarrow> sint (word_of_int k :: 64 word) = k"
  by (simp add: sint_sbintrunc' signed_take_bit_int_eq_self)

lemma word_of_unat: "unat (u :: 64 word) = v \<Longrightarrow> u = word_of_nat v"
  by auto

lemma ParseInt_of_ParseUint:
  assumes "s \<noteq> []"
    and "ParseUint (if hd s = CHR ''+'' \<or> hd s = CHR ''-'' then tl s else s) = (un, None)"
  shows "ParseInt s =
     (if hd s \<noteq> CHR ''-'' \<and> 2 ^ 63 \<le> unat un then (9223372036854775807, Some ErrRange)
      else if hd s = CHR ''-'' \<and> 2 ^ 63 < unat un then (- 9223372036854775808, Some ErrRange)
      else (if hd s = CHR ''-'' then - un else un, None))"
proof -
  have c1: "(9223372036854775808 \<le> un) = (2 ^ 63 \<le> unat un)"
    by (simp add: word_le_nat_alt)
  have c2: "(9223372036854775808 < un) = (2 ^ 63 < unat un)"
    by (simp add: word_less_nat_alt)
  show ?thesis
    using assms by (simp add: ParseInt_def Let_def c1 c2)
qed

lemma ParseInt_correct:
  "ParseInt s = (i, None) \<longleftrightarrow>
     isDecimalInteger s \<and> - (2 ^ 63) \<le> intValue s \<and> intValue s < 2 ^ 63
     \<and> i = word_of_int (intValue s)"
proof (cases "s = []")
  case True
  then show ?thesis by (simp add: ParseInt_def isDecimalInteger_def)
next
  case ne: False
  let ?s1 = "if hd s = CHR ''+'' \<or> hd s = CHR ''-'' then tl s else s"
  let ?V = "digitsValue 0 ?s1"
  have dec: "isDecimalInteger s = (?s1 \<noteq> [] \<and> list_all isDigit ?s1)"
    using ne by (simp add: isDecimalInteger_def Let_def)
  have iv: "intValue s = (if hd s = CHR ''-'' then - int ?V else int ?V)"
    using ne by (simp add: intValue_def)
  show ?thesis
  proof
    assume ok: "ParseInt s = (i, None)"
    then have "snd (ParseUint ?s1) = None"
      using ParseInt_ok_ParseUint [of s] by simp
    then obtain un where un: "ParseUint ?s1 = (un, None)"
      by (cases "ParseUint ?s1") simp
    from iffD1 [OF ParseUint_correct un]
    have u: "?s1 \<noteq> []" "list_all isDigit ?s1" "unat un = ?V"
      by blast+
    have w: "un = word_of_nat ?V" by (rule word_of_unat [OF u(3)])
    from ok ParseInt_of_ParseUint [OF ne un]
    have r: "\<not> (hd s \<noteq> CHR ''-'' \<and> 2 ^ 63 \<le> ?V)" "\<not> (hd s = CHR ''-'' \<and> 2 ^ 63 < ?V)"
      "i = (if hd s = CHR ''-'' then - un else un)"
      by (auto simp: u(3) split: if_splits)
    have "i = word_of_int (intValue s)"
      unfolding r(3) iv w by simp
    moreover have "- (2 ^ 63) \<le> intValue s \<and> intValue s < 2 ^ 63"
      using r(1,2) unfolding iv by (auto simp: not_le not_less)
    ultimately show "isDecimalInteger s \<and> - (2 ^ 63) \<le> intValue s \<and> intValue s < 2 ^ 63
        \<and> i = word_of_int (intValue s)"
      using u(1,2) dec by simp
  next
    assume a: "isDecimalInteger s \<and> - (2 ^ 63) \<le> intValue s \<and> intValue s < 2 ^ 63
        \<and> i = word_of_int (intValue s)"
    then have d: "?s1 \<noteq> []" "list_all isDigit ?s1" using dec by simp_all
    have rng: "\<not> (hd s \<noteq> CHR ''-'' \<and> 2 ^ 63 \<le> ?V)" "\<not> (hd s = CHR ''-'' \<and> 2 ^ 63 < ?V)"
      using a unfolding iv by (auto split: if_splits)
    then have lt: "?V < 2 ^ 64" by (cases "hd s = CHR ''-''") simp_all
    have ua: "unat (word_of_nat ?V :: 64 word) = ?V"
      using lt by (simp add: unat_of_nat)
    have un: "ParseUint ?s1 = (word_of_nat ?V, None)"
      by (rule iffD2 [OF ParseUint_correct]) (use d lt ua in blast)
    have "ParseInt s = (if hd s = CHR ''-'' then - word_of_nat ?V else word_of_nat ?V, None)"
      using ParseInt_of_ParseUint [OF ne un] rng by (simp only: ua) auto
    moreover have "i = (if hd s = CHR ''-'' then - word_of_nat ?V else word_of_nat ?V)"
      using a unfolding iv by simp
    ultimately show "ParseInt s = (i, None)" by simp
  qed
qed

lemma ParseInt_value:
  "ParseInt s = (i, None) \<Longrightarrow> sint i = intValue s"
  using ParseInt_correct [of s i] sint_word_of_int64 [of "intValue s"] by simp


subsection \<open>Bit lengths and binary exponents\<close>

lemma bitLen_pos: "0 < n \<Longrightarrow> 0 < bitLen n"
  by (subst bitLen.simps) simp

lemma bitLen_bounds:
  "0 < n \<Longrightarrow> 2 ^ (bitLen n - 1) \<le> n \<and> n < 2 ^ bitLen n"
proof (induction n rule: bitLen.induct)
  case (1 n)
  have bl: "bitLen n = Suc (bitLen (n div 2))"
    using "1.prems" by (subst bitLen.simps) simp
  show ?case
  proof (cases "n div 2 = 0")
    case True
    with "1.prems" have "n = 1" by (simp add: div_eq_0_iff)
    then show ?thesis by (simp add: bitLen.simps)
  next
    case False
    then have pos: "0 < n div 2" by simp
    from "1.IH" [OF _ pos] "1.prems"
    have lo: "2 ^ (bitLen (n div 2) - 1) \<le> n div 2"
      and hi: "n div 2 < 2 ^ bitLen (n div 2)"
      by simp_all
    obtain b where b: "bitLen (n div 2) = Suc b"
      using bitLen_pos [OF pos] by (cases "bitLen (n div 2)") simp_all
    have "(2::nat) ^ Suc b = 2 * 2 ^ b" by simp
    also have "\<dots> \<le> 2 * (n div 2)" using lo b by simp
    also have "\<dots> \<le> n" by simp
    finally have low: "2 ^ (bitLen n - 1) \<le> n" by (simp add: bl b)
    have "n < 2 * (n div 2) + 2" by presburger
    also have "\<dots> \<le> 2 * 2 ^ bitLen (n div 2)" using hi by simp
    finally have "n < 2 ^ bitLen n" by (simp add: bl)
    with low show ?thesis by simp
  qed
qed

lemma bitLen_1: "bitLen (Suc 0) = 1"
  by (simp add: bitLen.simps)

lemma bitLen_ge: "0 < n \<Longrightarrow> 2 ^ k \<le> n \<Longrightarrow> k < bitLen n"
proof -
  assume "0 < n" "2 ^ k \<le> n"
  then have "(2::nat) ^ k < 2 ^ bitLen n"
    using bitLen_bounds [of n] by (meson le_less_trans)
  then show ?thesis by (rule power_less_imp_less_exp [rotated]) simp
qed

lemma bitLen_le: "0 < n \<Longrightarrow> n < 2 ^ k \<Longrightarrow> bitLen n \<le> k"
proof -
  assume "0 < n" "n < 2 ^ k"
  then have "(2::nat) ^ (bitLen n - 1) < 2 ^ k"
    using bitLen_bounds [of n] by (meson le_less_trans)
  then have "bitLen n - 1 < k" by (rule power_less_imp_less_exp [rotated]) simp
  then show ?thesis by simp
qed

lemma binExp_ge:
  assumes "0 < d" and "d * 2 ^ k \<le> n"
  shows "int k \<le> binExp n d"
proof -
  have "0 < d * 2 ^ k" using assms(1) by simp
  then have npos: "0 < n" using assms(2) by linarith
  let ?a = "bitLen n" and ?b = "bitLen d"
  have "2 ^ (?b - 1) * 2 ^ k \<le> d * 2 ^ k"
    using bitLen_bounds [OF assms(1)] by (intro mult_le_mono1) simp
  then have "2 ^ (?b - 1) * 2 ^ k \<le> n" using assms(2) by (rule le_trans)
  then have "2 ^ (?b - 1 + k) \<le> n" by (simp only: power_add)
  then have "?b - 1 + k < ?a" by (rule bitLen_ge [OF npos])
  then have e0: "int k \<le> int ?a - int ?b" using bitLen_pos [OF assms(1)] by simp
  show ?thesis
  proof (cases "int k = int ?a - int ?b")
    case True
    then have "nat (int ?a - int ?b) = k" "nat (- (int ?a - int ?b)) = 0" by simp_all
    then show ?thesis using assms(2) True by (simp add: binExp_def Let_def)
  next
    case False
    then show ?thesis using e0 by (simp add: binExp_def Let_def)
  qed
qed



subsection \<open>Overflow\<close>

lemma roundFloat64_overflow:
  assumes "0 < d" and "d * 2 ^ 1024 \<le> n"
  shows "roundFloat64 neg n d = (math_Inf neg, True)"
proof -
  have npos: "n \<noteq> 0" using assms by auto
  have "1024 \<le> binExp n d" using binExp_ge [OF assms] by simp
  then show ?thesis using npos by (simp add: roundFloat64_def Let_def)
qed

lemma ParseFloat_overflow:
  assumes "special s = None"
    and "readFloat s = Some (mant, int k, neg, False, [])"
    and "2 ^ 1024 \<le> mant * 10 ^ k"
  shows "ParseFloat s = (math_Inf neg, Some ErrRange)"
proof -
  have "roundFloat64 neg (mant * 10 ^ k) 1 = (math_Inf neg, True)"
    by (rule roundFloat64_overflow) (use assms(3) in simp_all)
  then show ?thesis
    by (simp add: ParseFloat_def atof64_def assms(1) assms(2))
qed


subsection \<open>The fields of a float64, and the integers up to \<open>2^53\<close>\<close>

lemma unat_float64_of_fields:
  assumes "ex < 2048" and "fr < 2 ^ 52"
  shows "unat (float64_of_fields neg ex fr) = (if neg then 2 ^ 63 else 0) + ex * 2 ^ 52 + fr"
proof -
  have "ex * 2 ^ 52 + fr < 2047 * 2 ^ 52 + 2 ^ 52"
    using assms by (intro add_le_less_mono mult_le_mono1) simp_all
  then have "(if neg then 2 ^ 63 else 0) + ex * 2 ^ 52 + fr < (2::nat) ^ 64" by simp
  then show ?thesis
    unfolding float64_of_fields_def by (subst unat_of_nat) simp
qed

lemma div_mod_low:
  fixes p :: nat
  assumes "r < p"
  shows "(q * p + r) div p = q" and "(q * p + r) mod p = r"
  using assms by simp_all

lemma float64_fields:
  assumes "ex < 2048" and "fr < 2 ^ 52"
  shows "float64_sign (float64_of_fields neg ex fr) = neg"
    and "float64_exp (float64_of_fields neg ex fr) = ex"
    and "float64_frac (float64_of_fields neg ex fr) = fr"
proof -
  let ?u = "(if neg then 2 ^ 63 else 0) + ex * 2 ^ 52 + fr :: nat"
  have u: "unat (float64_of_fields neg ex fr) = ?u"
    by (rule unat_float64_of_fields [OF assms])
  have lt: "ex * 2 ^ 52 + fr < 2 ^ 63"
  proof -
    have "ex * 2 ^ 52 + fr < 2047 * 2 ^ 52 + 2 ^ 52"
      using assms by (intro add_le_less_mono mult_le_mono1) simp_all
    then show ?thesis by simp
  qed
  show "float64_sign (float64_of_fields neg ex fr) = neg"
    using lt by (simp add: float64_sign_def u)
  have split: "?u = ((if neg then 2 ^ 11 else 0) + ex) * 2 ^ 52 + fr"
    by simp
  have "?u div 2 ^ 52 = (if neg then 2 ^ 11 else 0) + ex"
    by (simp only: split div_mod_low(1) [OF assms(2)])
  then show "float64_exp (float64_of_fields neg ex fr) = ex"
    using assms(1) by (simp add: float64_exp_def u)
  have "?u mod 2 ^ 52 = fr"
    by (simp only: split div_mod_low(2) [OF assms(2)])
  then show "float64_frac (float64_of_fields neg ex fr) = fr"
    by (simp add: float64_frac_def u)
qed


lemma roundHalfEven_1: "roundHalfEven n 1 = n"
  by (simp add: roundHalfEven_def)

lemma binExp_1:
  assumes "0 < a"
  shows "binExp a (Suc 0) = int (bitLen a) - 1"
proof -
  have "0 < bitLen a" by (rule bitLen_pos [OF assms])
  then have "nat (int (bitLen a) - 1) = bitLen a - 1" "nat (1 - int (bitLen a)) = 0"
    by simp_all
  then show ?thesis
    using bitLen_bounds [OF assms] by (simp add: binExp_def bitLen_1 Let_def)
qed

lemma float64_val_normal:
  assumes "0 < ex" and "ex < 2047" and "2 ^ 52 \<le> m" and "m < 2 ^ 53"
  shows "float64_val (float64_of_fields neg ex (m - 2 ^ 52)) =
         Some ((if neg then - 1 else 1) * of_nat m
               * (if 1075 \<le> ex then 2 ^ (ex - 1075) else 1 / 2 ^ (1075 - ex)))"
proof -
  have ex: "ex < 2048" using assms(2) by simp
  have fr: "m - 2 ^ 52 < 2 ^ 52" using assms(3,4) by simp
  note f = float64_fields [OF ex fr, of neg]
  have mant: "float64_mant (float64_of_fields neg ex (m - 2 ^ 52)) = m"
    using assms(1,3) f by (simp add: float64_mant_def)
  have pw: "float64_pow (float64_of_fields neg ex (m - 2 ^ 52)) = int ex - 1075"
    using assms(1) f by (simp add: float64_pow_def)
  have n1: "nat (int ex - 1075) = ex - 1075" and n2: "nat (1075 - int ex) = 1075 - ex"
    by simp_all
  show ?thesis
    using assms(2) f(1) f(2) mant pw by (simp add: float64_val_def n1 n2)
qed

lemma roundFloat64_nat_small:
  assumes "0 < a" and "a < 2 ^ 53"
  shows "roundFloat64 neg a (Suc 0) =
         (float64_of_fields neg (bitLen a + 1022) (a * 2 ^ (53 - bitLen a) - 2 ^ 52), False)"
proof -
  let ?b = "bitLen a"
  have bpos: "0 < ?b" by (rule bitLen_pos [OF assms(1)])
  have b53: "?b \<le> 53" by (rule bitLen_le [OF assms])
  have e: "max (binExp a (Suc 0)) (- 1022) = int ?b - 1"
    using bpos by (simp add: binExp_1 [OF assms(1)])
  have n1: "nat (52 - (int ?b - 1)) = 53 - ?b" and n2: "nat (int ?b - 1 - 52) = 0"
    using b53 by simp_all
  have step: "roundFloat64 neg a (Suc 0) =
      (let m = roundHalfEven (a * 2 ^ (53 - ?b)) (Suc 0);
           e' = (if 2 ^ 53 \<le> m then int ?b - 1 + 1 else int ?b - 1);
           m' = (if 2 ^ 53 \<le> m then m div 2 else m)
       in if 1023 < e' then (math_Inf neg, True)
          else if m' < 2 ^ 52 then (float64_of_fields neg 0 m', False)
          else (float64_of_fields neg (nat (e' + 1023)) (m' - 2 ^ 52), False))"
    using assms(1) unfolding roundFloat64_def e Let_def n1 n2 by simp
  have m: "roundHalfEven (a * 2 ^ (53 - ?b)) (Suc 0) = a * 2 ^ (53 - ?b)"
    using roundHalfEven_1 by simp
  have "a * 2 ^ (53 - ?b) < 2 ^ ?b * 2 ^ (53 - ?b)"
    using bitLen_bounds [OF assms(1)] by simp
  also have "\<dots> = 2 ^ 53" using b53 by (simp add: power_add [symmetric])
  finally have hi: "a * 2 ^ (53 - ?b) < 2 ^ 53" .
  have "(2::nat) ^ 52 = 2 ^ (?b - 1) * 2 ^ (53 - ?b)"
    using b53 bpos by (simp add: power_add [symmetric])
  also have "\<dots> \<le> a * 2 ^ (53 - ?b)"
    using bitLen_bounds [OF assms(1)] by (intro mult_le_mono1) simp
  finally have lo: "2 ^ 52 \<le> a * 2 ^ (53 - ?b)" .
  have n3: "nat (int ?b - 1 + 1023) = ?b + 1022" using bpos by simp
  have le: "\<not> 1023 < int ?b - 1" using b53 by simp
  show ?thesis
    unfolding step m Let_def using hi lo le n3 by simp
qed


lemma float64_val_nat_small:
  assumes "0 < a" and "a < 2 ^ 53"
  shows "float64_val (fst (roundFloat64 neg a (Suc 0))) = Some ((if neg then - 1 else 1) * of_nat a)"
proof -
  let ?b = "bitLen a"
  let ?m = "a * 2 ^ (53 - ?b)"
  have bpos: "0 < ?b" by (rule bitLen_pos [OF assms(1)])
  have b53: "?b \<le> 53" by (rule bitLen_le [OF assms])
  have "?m < 2 ^ ?b * 2 ^ (53 - ?b)"
    using bitLen_bounds [OF assms(1)] by simp
  also have "\<dots> = 2 ^ 53" using b53 by (simp add: power_add [symmetric])
  finally have hi: "?m < 2 ^ 53" .
  have "(2::nat) ^ 52 = 2 ^ (?b - 1) * 2 ^ (53 - ?b)"
    using b53 bpos by (simp add: power_add [symmetric])
  also have "\<dots> \<le> ?m"
    using bitLen_bounds [OF assms(1)] by (intro mult_le_mono1) simp
  finally have lo: "2 ^ 52 \<le> ?m" .
  have ex: "0 < ?b + 1022" "?b + 1022 < 2047" using b53 by simp_all
  have v: "float64_val (float64_of_fields neg (?b + 1022) (?m - 2 ^ 52)) =
        Some ((if neg then - 1 else 1) * of_nat ?m
              * (if 1075 \<le> ?b + 1022 then 2 ^ (?b + 1022 - 1075)
                 else 1 / 2 ^ (1075 - (?b + 1022))))"
    by (rule float64_val_normal [OF ex lo hi])
  have scale: "(of_nat ?m :: rat)
        * (if 1075 \<le> ?b + 1022 then 2 ^ (?b + 1022 - 1075) else 1 / 2 ^ (1075 - (?b + 1022)))
        = of_nat a"
  proof (cases "?b = 53")
    case True
    then show ?thesis by simp
  next
    case False
    with b53 have "1075 - (?b + 1022) = 53 - ?b" "\<not> 1075 \<le> ?b + 1022" by simp_all
    then show ?thesis by simp
  qed
  have "float64_val (float64_of_fields neg (?b + 1022) (?m - 2 ^ 52)) =
        Some ((if neg then - 1 else 1) * of_nat a)"
    unfolding v using scale by (simp only: mult.assoc)
  then show ?thesis by (simp only: roundFloat64_nat_small [OF assms] fst_conv)
qed

lemma bitLen_eq: "2 ^ k \<le> n \<Longrightarrow> n < 2 ^ Suc k \<Longrightarrow> bitLen n = Suc k"
proof -
  assume lo: "2 ^ k \<le> n" and hi: "n < 2 ^ Suc k"
  have "(0::nat) < 2 ^ k" by simp
  with lo have pos: "0 < n" by linarith
  from bitLen_ge [OF pos lo] bitLen_le [OF pos hi] show ?thesis by simp
qed

lemma roundFloat64_2_53: "roundFloat64 neg (2 ^ 53) (Suc 0) = (float64_of_fields neg 1076 0, False)"
proof -
  have b: "bitLen (2 ^ 53) = 54" using bitLen_eq [of 53 "2 ^ 53"] by simp
  have e: "binExp (2 ^ 53) (Suc 0) = 53" using binExp_1 [of "2 ^ 53"] b by simp
  show ?thesis
    using e by (simp add: roundFloat64_def roundHalfEven_def Let_def)
qed

lemma float64_val_2_53:
  "float64_val (fst (roundFloat64 neg (2 ^ 53) (Suc 0))) = Some ((if neg then - 1 else 1) * 2 ^ 53)"
proof -
  have "float64_val (float64_of_fields neg 1076 (2 ^ 52 - 2 ^ 52)) =
        Some ((if neg then - 1 else 1) * of_nat (2 ^ 52)
              * (if (1075::nat) \<le> 1076 then 2 ^ (1076 - 1075) else 1 / 2 ^ (1075 - 1076)))"
    by (rule float64_val_normal) simp_all
  then show ?thesis using roundFloat64_2_53 [of neg] by (cases neg) simp_all
qed

lemma float64_val_zero: "float64_val (fst (roundFloat64 False 0 d)) = Some 0"
proof -
  have "float64_of_fields False 0 0 = 0" by (simp add: float64_of_fields_def)
  then show ?thesis
    by (simp add: roundFloat64_def float64_val_def float64_exp_def float64_mant_def
        float64_frac_def)
qed

lemma signed_magnitude: "(if v < 0 then - 1 else 1) * (of_nat (nat \<bar>v\<bar>) :: rat) = of_int v"
  by (cases "v < 0") simp_all

lemma float64_of_int64_exact:
  assumes "\<bar>sint i\<bar> \<le> 2 ^ 53"
  shows "float64_val (float64_of_int64 i) = Some (of_int (sint i))"
proof -
  let ?a = "nat \<bar>sint i\<bar>"
  have a: "?a \<le> 2 ^ 53" using assms by simp
  have sgn: "(if sint i < 0 then - 1 else 1) * (of_nat ?a :: rat) = of_int (sint i)"
    by (rule signed_magnitude)
  consider "?a = 0" | "0 < ?a" "?a < 2 ^ 53" | "?a = 2 ^ 53" using a by linarith
  then show ?thesis
  proof cases
    case 1
    then have "sint i = 0" by simp
    then show ?thesis using float64_val_zero [of 1] by (simp add: float64_of_int64_def)
  next
    case 2
    from float64_val_nat_small [OF 2, of "sint i < 0"] sgn show ?thesis
      by (simp add: float64_of_int64_def)
  next
    case 3
    from float64_val_2_53 [of "sint i < 0"] sgn 3 show ?thesis
      by (simp add: float64_of_int64_def)
  qed
qed


subsection \<open>The integers beyond \<open>2^53\<close>: the error of the conversion\<close>

lemma roundHalfEven_error:
  assumes "0 < d"
  shows "2 * (roundHalfEven n d * d) \<le> 2 * n + d \<and> 2 * n \<le> 2 * (roundHalfEven n d * d) + d"
proof -
  define Q where "Q = n div d * d"
  define r where "r = n mod d"
  have n: "n = Q + r" by (simp add: Q_def r_def)
  have r: "r < d" using assms by (simp add: r_def)
  show ?thesis
  proof (cases "d < 2 * r \<or> (2 * r = d \<and> odd (n div d))")
    case True
    then have m: "roundHalfEven n d * d = Q + d"
      by (auto simp: roundHalfEven_def Let_def Q_def r_def)
    from True have "d \<le> 2 * r" by auto
    with r n have "2 * (Q + d) \<le> 2 * n + d" by simp
    moreover from r n have "2 * n \<le> 2 * (Q + d) + d" by simp
    ultimately show ?thesis unfolding m by simp
  next
    case False
    then have m: "roundHalfEven n d * d = Q"
      by (auto simp: roundHalfEven_def Let_def Q_def r_def)
    from False have "2 * r \<le> d" by auto
    with n have "2 * n \<le> 2 * Q + d" by simp
    moreover from n have "2 * Q \<le> 2 * n + d" by simp
    ultimately show ?thesis unfolding m by simp
  qed
qed

lemma roundHalfEven_range:
  assumes "0 < d" and "lo * d \<le> n" and "n < hi * d"
  shows "lo \<le> roundHalfEven n d \<and> roundHalfEven n d \<le> hi"
proof -
  have q1: "lo \<le> n div d" using assms(1,2) by (simp add: less_eq_div_iff_mult_less_eq)
  have q2: "n div d < hi" using assms(1,3) by (simp add: div_less_iff_less_mult)
  have "roundHalfEven n d = n div d \<or> roundHalfEven n d = n div d + 1"
    by (simp add: roundHalfEven_def Let_def)
  then show ?thesis using q1 q2 by auto
qed

lemma float64_val_nat_big:
  assumes "2 ^ 53 \<le> a" and "a < 2 ^ 64"
  shows "\<exists>k. float64_val (fst (roundFloat64 neg a (Suc 0)))
              = Some ((if neg then - 1 else 1) * of_nat k)
            \<and> 2 ^ 53 * k \<le> 2 ^ 53 * a + a \<and> 2 ^ 53 * a \<le> 2 ^ 53 * k + a"
proof -
  let ?b = "bitLen a"
  let ?p = "(2::nat) ^ (?b - 53)"
  let ?m = "roundHalfEven a ?p"
  have apos: "0 < a" using assms(1) by (simp add: less_le_trans [of 0 "2 ^ 53"])
  have b54: "54 \<le> ?b" using bitLen_ge [OF apos assms(1)] by simp
  have b64: "?b \<le> 64" by (rule bitLen_le [OF apos assms(2)])
  have bb: "2 ^ (?b - 1) \<le> a" "a < 2 ^ ?b" using bitLen_bounds [OF apos] by simp_all
  have "52 + (?b - 53) = ?b - 1" "53 + (?b - 53) = ?b" using b54 by simp_all
  then have p52: "2 ^ 52 * ?p = 2 ^ (?b - 1)" and p53: "2 ^ 53 * ?p = 2 ^ ?b"
    by (simp_all only: power_add [symmetric])
  have mr: "2 ^ 52 \<le> ?m \<and> ?m \<le> 2 ^ 53"
    by (rule roundHalfEven_range) (use bb p52 p53 in simp_all)
  have err: "2 * (?m * ?p) \<le> 2 * a + ?p \<and> 2 * a \<le> 2 * (?m * ?p) + ?p"
    by (rule roundHalfEven_error) simp
  have e: "max (binExp a (Suc 0)) (- 1022) = int ?b - 1"
    using b54 by (simp add: binExp_1 [OF apos])
  have n1: "nat (52 - (int ?b - 1)) = 0" and n2: "nat (int ?b - 1 - 52) = ?b - 53"
    using b54 by simp_all
  have step: "roundFloat64 neg a (Suc 0) =
      (let m = ?m;
           e' = (if 2 ^ 53 \<le> m then int ?b - 1 + 1 else int ?b - 1);
           m' = (if 2 ^ 53 \<le> m then m div 2 else m)
       in if 1023 < e' then (math_Inf neg, True)
          else if m' < 2 ^ 52 then (float64_of_fields neg 0 m', False)
          else (float64_of_fields neg (nat (e' + 1023)) (m' - 2 ^ 52), False))"
    using apos unfolding roundFloat64_def e Let_def n1 n2 by simp
  have val: "float64_val (fst (roundFloat64 neg a (Suc 0)))
      = Some ((if neg then - 1 else 1) * of_nat (?m * ?p))"
  proof (cases "?m < 2 ^ 53")
    case True
    have r: "roundFloat64 neg a (Suc 0) = (float64_of_fields neg (?b + 1022) (?m - 2 ^ 52), False)"
    proof -
      have "nat (int ?b - 1 + 1023) = ?b + 1022" using b54 by simp
      then show ?thesis unfolding step Let_def using True mr b64 by simp
    qed
    have "float64_val (float64_of_fields neg (?b + 1022) (?m - 2 ^ 52)) =
        Some ((if neg then - 1 else 1) * of_nat ?m
              * (if 1075 \<le> ?b + 1022 then 2 ^ (?b + 1022 - 1075)
                 else 1 / 2 ^ (1075 - (?b + 1022))))"
      by (rule float64_val_normal) (use mr True b64 in simp_all)
    moreover have "?b + 1022 - 1075 = ?b - 53" "1075 \<le> ?b + 1022" using b54 by simp_all
    ultimately show ?thesis by (simp add: r)
  next
    case False
    with mr have m53: "?m = 2 ^ 53" by simp
    have r: "roundFloat64 neg a (Suc 0) = (float64_of_fields neg (?b + 1023) (2 ^ 52 - 2 ^ 52), False)"
    proof -
      have "nat (int ?b - 1 + 1 + 1023) = ?b + 1023" by simp
      then show ?thesis unfolding step Let_def m53 using b64 by simp
    qed
    have "float64_val (float64_of_fields neg (?b + 1023) (2 ^ 52 - 2 ^ 52)) =
        Some ((if neg then - 1 else 1) * of_nat (2 ^ 52)
              * (if 1075 \<le> ?b + 1023 then 2 ^ (?b + 1023 - 1075)
                 else 1 / 2 ^ (1075 - (?b + 1023))))"
      by (rule float64_val_normal) (use b64 in simp_all)
    moreover have "?b + 1023 - 1075 = Suc (?b - 53)" "1075 \<le> ?b + 1023" using b54 by simp_all
    ultimately show ?thesis by (simp add: r m53)
  qed
  have "2 ^ 53 * (?m * ?p) \<le> 2 ^ 53 * a + a \<and> 2 ^ 53 * a \<le> 2 ^ 53 * (?m * ?p) + a"
  proof -
    have "2 ^ 52 * ?p \<le> a" using bb(1) p52 by simp
    moreover have "2 ^ 52 * (2 * (?m * ?p)) \<le> 2 ^ 52 * (2 * a + ?p)"
      using err by (intro mult_le_mono2) simp
    moreover have "2 ^ 52 * (2 * a) \<le> 2 ^ 52 * (2 * (?m * ?p) + ?p)"
      using err by (intro mult_le_mono2) simp
    ultimately show ?thesis by (simp add: algebra_simps)
  qed
  with val show ?thesis by blast
qed


lemma float64_of_int64_error:
  "\<exists>k. float64_val (float64_of_int64 i) = Some (of_int k)
       \<and> \<bar>k - sint i\<bar> * 2 ^ 53 \<le> \<bar>sint i\<bar>"
proof (cases "\<bar>sint i\<bar> \<le> 2 ^ 53")
  case True
  then have "float64_val (float64_of_int64 i) = Some (of_int (sint i))"
    by (rule float64_of_int64_exact)
  then show ?thesis by (intro exI [of _ "sint i"]) simp
next
  case False
  let ?a = "nat \<bar>sint i\<bar>"
  have "sint i < 2 ^ (LENGTH(64) - 1)" "- (2 ^ (LENGTH(64) - 1)) \<le> sint i"
    by (rule sint_lt, rule sint_ge)
  then have a64: "?a < 2 ^ 64" by simp
  have a53: "2 ^ 53 \<le> ?a" using False by simp
  from float64_val_nat_big [OF a53 a64, of "sint i < 0"]
  obtain kn where kn: "float64_val (fst (roundFloat64 (sint i < 0) ?a (Suc 0)))
        = Some ((if sint i < 0 then - 1 else 1) * of_nat kn)"
    and b1: "2 ^ 53 * kn \<le> 2 ^ 53 * ?a + ?a" and b2: "2 ^ 53 * ?a \<le> 2 ^ 53 * kn + ?a"
    by blast
  let ?k = "if sint i < 0 then - int kn else int kn"
  have "((if sint i < 0 then - 1 else 1) * of_nat kn :: rat) = of_int ?k" by simp
  then have v: "float64_val (float64_of_int64 i) = Some (of_int ?k)"
    using kn by (simp only: float64_of_int64_def One_nat_def)
  define A where "A = \<bar>sint i\<bar>"
  define K where "K = int kn"
  have ia: "int ?a = A" by (simp add: A_def)
  have "int (2 ^ 53 * kn) \<le> int (2 ^ 53 * ?a + ?a)" using b1 by (simp only: of_nat_le_iff)
  then have i1: "9007199254740992 * K \<le> 9007199254740992 * A + A"
    unfolding K_def ia [symmetric] by simp
  have "int (2 ^ 53 * ?a) \<le> int (2 ^ 53 * kn + ?a)" using b2 by (simp only: of_nat_le_iff)
  then have i2: "9007199254740992 * A \<le> 9007199254740992 * K + A"
    unfolding K_def ia [symmetric] by simp
  have "\<bar>K - A\<bar> * 9007199254740992 \<le> A"
  proof (cases "A \<le> K")
    case True
    then have "\<bar>K - A\<bar> = K - A" by simp
    then show ?thesis using i1 by (simp add: left_diff_distrib)
  next
    case False
    then have "\<bar>K - A\<bar> = A - K" by simp
    then show ?thesis using i2 by (simp add: left_diff_distrib)
  qed
  moreover have "\<bar>?k - sint i\<bar> = \<bar>K - A\<bar>"
    unfolding K_def A_def by (cases "sint i < 0") simp_all
  ultimately have "\<bar>?k - sint i\<bar> * 2 ^ 53 \<le> \<bar>sint i\<bar>" by (simp add: A_def)
  with v show ?thesis by blast
qed


subsection \<open>The loop of Object.String\<close>

lemma join_Cons: "join sep (x # xs) = x @ (if xs = [] then [] else sep @ join sep xs)"
  by (cases xs) simp_all

lemma Object_String_loop_join:
  "Object_String_loop i b kvs =
     b @ (if 0 < i \<and> kvs \<noteq> [] then '', '' else [])
       @ join '', '' (map (\<lambda>(k, vs). k @ '': '' @ vs) kvs)"
proof (induction kvs arbitrary: i b)
  case Nil
  then show ?case by simp
next
  case (Cons kv kvs)
  obtain k vs where kv: "kv = (k, vs)" by (cases kv)
  show ?case
    unfolding kv by (simp add: Cons.IH join_Cons)
qed

lemma Object_String_loop_display:
  "Object_String_loop 0 ''{'' kvs @ ''}'' = pairs_display kvs"
  by (simp add: Object_String_loop_join pairs_display_def)

lemma Object_String_iff:
  "Object_String ob s \<longleftrightarrow>
     (\<exists>ks vss. distinct ks \<and> set ks = fmdom' (Pairs ob)
        \<and> list_all2 (\<lambda>k vs. \<exists>v. fmlookup (Pairs ob) k = Some v \<and> String v vs) ks vss
        \<and> s = pairs_display (zip ks vss))"
  by (subst Object_String.simps) (auto simp: Object_String_loop_display)

lemma Object_String_ab:
  fixes t t1 t2 :: "'m Token_scheme"
  defines "ob \<equiv> Object t (fmap_of_list [(''a'', NullNode \<lparr>Null.Token = t1\<rparr>),
                                        (''b'', NullNode \<lparr>Null.Token = t2\<rparr>)])"
  shows "Object_String ob ''{a: null, b: null}''" and "Object_String ob ''{b: null, a: null}''"
proof -
  have dom: "fmdom' (Pairs ob) = {''a'', ''b''}"
    by (auto simp: ob_def fmdom'_alt_def)
  have a: "fmlookup (Pairs ob) ''a'' = Some (NullNode \<lparr>Null.Token = t1\<rparr>)"
    and b: "fmlookup (Pairs ob) ''b'' = Some (NullNode \<lparr>Null.Token = t2\<rparr>)"
    by (simp_all add: ob_def)
  have n: "String (NullNode nl) ''null''" for nl :: "'m Null"
    using String_Null [of nl] by (simp add: Null_String_def)
  have "Object_String ob (pairs_display (zip [''a'', ''b''] [''null'', ''null'']))"
    unfolding Object_String_iff
    by (intro exI [of _ "[''a'', ''b'']"] exI [of _ "[''null'', ''null'']"])
       (auto simp: dom a b n)
  then show "Object_String ob ''{a: null, b: null}''"
    by (simp add: pairs_display_def)
  have "Object_String ob (pairs_display (zip [''b'', ''a''] [''null'', ''null'']))"
    unfolding Object_String_iff
    by (intro exI [of _ "[''b'', ''a'']"] exI [of _ "[''null'', ''null'']"])
       (auto simp: dom a b n)
  then show "Object_String ob ''{b: null, a: null}''"
    by (simp add: pairs_display_def)
qed


subsection \<open>The parsers on some literals\<close>

lemma ParseInt_42: "ParseInt ''42'' = (42, None)"
  by (simp add: ParseInt_def ParseUint_def isDigit_def)

lemma ParseInt_42_0: "ParseInt ''42.0'' = (0, Some ErrSyntax)"
  by (simp add: ParseInt_def ParseUint_def isDigit_def)

lemma readFloat_42_0: "readFloat ''42.0'' = Some (420, - 1, False, False, [])"
  by (simp add: readFloat_def isDigit_def lower_def)

lemma bitLen_420: "bitLen 420 = 9"
  by (simp add: bitLen.simps)

lemma bitLen_10: "bitLen 10 = 4"
  by (simp add: bitLen.simps)

lemma roundFloat64_420_10: "roundFloat64 False 420 10 = (4631107791820423168, False)"
  by (simp add: roundFloat64_def binExp_def bitLen_420 bitLen_10 roundHalfEven_def
      float64_of_fields_def Let_def)

lemma ParseFloat_42_0: "ParseFloat ''42.0'' = (4631107791820423168, None)"
  by (simp add: ParseFloat_def atof64_def special_def readFloat_42_0 roundFloat64_420_10)

lemma float64_val_42: "float64_val 4631107791820423168 = Some 42"
  by (simp add: float64_val_def float64_exp_def float64_sign_def float64_mant_def
      float64_pow_def float64_frac_def)

lemma ParseInt_1e5: "ParseInt ''1e5'' = (0, Some ErrSyntax)"
  by (simp add: ParseInt_def ParseUint_def isDigit_def)

lemma readFloat_1e5: "readFloat ''1e5'' = Some (1, 5, False, False, [])"
  by (simp add: readFloat_def isDigit_def lower_def)

lemma bitLen_100000: "bitLen 100000 = 17"
  by (simp add: bitLen.simps)

lemma roundFloat64_100000: "roundFloat64 False 100000 (Suc 0) = (4681608360884174848, False)"
  by (simp add: roundFloat64_def binExp_def bitLen_100000 bitLen_1 roundHalfEven_def
      float64_of_fields_def Let_def)

lemma ParseFloat_1e5: "ParseFloat ''1e5'' = (4681608360884174848, None)"
  by (simp add: ParseFloat_def atof64_def special_def readFloat_1e5 roundFloat64_100000)

lemma float64_val_100000: "float64_val 4681608360884174848 = Some 100000"
  by (simp add: float64_val_def float64_exp_def float64_sign_def float64_mant_def
      float64_pow_def float64_frac_def)

lemma ParseInt_minus: "ParseInt ''-'' = (0, Some ErrSyntax)"
  by (simp add: ParseInt_def ParseUint_def)

lemma ParseFloat_minus: "ParseFloat ''-'' = (0, Some ErrSyntax)"
  by (simp add: ParseFloat_def atof64_def special_def special_inf_def readFloat_def)

lemma Sprintf_f_zero: "Sprintf_f 0 = ''0.000000''"
  by (simp add: Sprintf_f_def float64_exp_def float64_sign_def float64_mant_def
      float64_pow_def float64_frac_def roundHalfEven_def decimal.simps digitChar_def)

lemma ParseInt_1e400: "ParseInt ''1e400'' = (0, Some ErrSyntax)"
  by (simp add: ParseInt_def ParseUint_def isDigit_def)

lemma readFloat_1e400: "readFloat ''1e400'' = Some (1, int 400, False, False, [])"
  by (simp add: readFloat_def isDigit_def lower_def)

lemma special_1e400: "special ''1e400'' = None"
  by (simp add: special_def)

lemma pow_2_1024_le: "(2::nat) ^ 1024 \<le> 1 * 10 ^ 400"
proof -
  have "(2::nat) ^ 1024 \<le> 2 ^ (3 * 400)" by (rule power_increasing) simp_all
  also have "\<dots> = (2 ^ 3) ^ 400" by (rule power_mult)
  also have "\<dots> \<le> (10::nat) ^ 400" by (rule power_mono) simp_all
  also have "\<dots> = 1 * 10 ^ 400" by (simp only: mult_1)
  finally show ?thesis .
qed

lemma ParseFloat_1e400: "ParseFloat ''1e400'' = (math_Inf False, Some ErrRange)"
  by (rule ParseFloat_overflow [OF special_1e400 readFloat_1e400 pow_2_1024_le])

lemma ParseInt_big: "ParseInt ''9007199254740993'' = (9007199254740993, None)"
  by (simp add: ParseInt_def ParseUint_def isDigit_def)

lemma float64_of_int64_big: "float64_of_int64 9007199254740993 = 4845873199050653696"
proof -
  have b: "bitLen 9007199254740993 = 54" using bitLen_eq [of 53 9007199254740993] by simp
  have e: "binExp 9007199254740993 (Suc 0) = 53"
    using binExp_1 [of 9007199254740993] b by simp
  show ?thesis
    using e
    by (simp add: float64_of_int64_def roundFloat64_def roundHalfEven_def Let_def
        float64_of_fields_def)
qed

lemma float64_val_big: "float64_val 4845873199050653696 = Some 9007199254740992"
  by (simp add: float64_val_def float64_exp_def float64_sign_def float64_mant_def
      float64_pow_def float64_frac_def)

section \<open>Properties\<close>

subsection \<open>The number classifier\<close>

text \<open>
  C1. For every token literal that \<open>ParseInt\<close> accepts as a base-10 signed 64-bit integer
  \<open>i\<close>, \<open>NewNumberLiteral\<close> sets \<open>IsInt\<close> and \<open>IsValid\<close>, stores \<open>i\<close>, the integer the
  literal denotes, in \<open>Int\<close>, and sets \<open>Float\<close> to the conversion \<open>float64(i)\<close>. The
  conversion gives the integer itself whenever \<open>\<bar>i\<bar> \<le> 2^53\<close>; beyond that it rounds, to
  an integer no further from \<open>i\<close> than \<open>\<bar>i\<bar> / 2^53\<close>.
\<close>

theorem NewNumberLiteral_integer:
  assumes "ParseInt (Literal token) = (i, None)"
  shows "NumberLiteral.IsInt (NewNumberLiteral token) = True
         \<and> NumberLiteral.IsValid (NewNumberLiteral token) = True
         \<and> NumberLiteral.Int (NewNumberLiteral token) = i
         \<and> sint (NumberLiteral.Int (NewNumberLiteral token)) = intValue (Literal token)
         \<and> NumberLiteral.Float (NewNumberLiteral token) = float64_of_int64 i
         \<and> (\<bar>sint i\<bar> \<le> 2 ^ 53 \<longrightarrow>
              float64_val (NumberLiteral.Float (NewNumberLiteral token)) = Some (of_int (sint i)))
         \<and> (\<exists>k. float64_val (NumberLiteral.Float (NewNumberLiteral token)) = Some (of_int k)
                \<and> \<bar>k - sint i\<bar> * 2 ^ 53 \<le> \<bar>sint i\<bar>)"
  using float64_of_int64_error [of i]
  by (simp add: NewNumberLiteral_int [OF assms] float64_of_int64_exact ParseInt_value [OF assms])

theorem NewNumberLiteral_integer_witness:
  "ParseInt (Literal \<lparr>Literal = ''42''\<rparr>) = (42, None)
   \<and> \<bar>sint (42 :: int64)\<bar> \<le> 2 ^ 53
   \<and> NumberLiteral.IsInt (NewNumberLiteral \<lparr>Literal = ''42''\<rparr>) = True
   \<and> NumberLiteral.IsValid (NewNumberLiteral \<lparr>Literal = ''42''\<rparr>) = True
   \<and> NumberLiteral.Int (NewNumberLiteral \<lparr>Literal = ''42''\<rparr>) = 42
   \<and> float64_val (NumberLiteral.Float (NewNumberLiteral \<lparr>Literal = ''42''\<rparr>)) = Some 42"
  using NewNumberLiteral_integer [of "\<lparr>Literal = ''42''\<rparr>" 42]
  by (simp add: ParseInt_42 float64_of_int64_exact)

text \<open>
  C1, on the word exact: the conversion does not give every integer back. The literal
  \<open>9007199254740993\<close> (\<open>2^53 + 1\<close>) parses as an int64, and the \<open>Float\<close> field becomes
  \<open>9007199254740992\<close>, which is not the integer stored in \<open>Int\<close>.
\<close>

theorem NewNumberLiteral_integer_inexact:
  "ParseInt (Literal \<lparr>Literal = ''9007199254740993''\<rparr>) = (9007199254740993, None)
   \<and> NumberLiteral.IsInt (NewNumberLiteral \<lparr>Literal = ''9007199254740993''\<rparr>) = True
   \<and> NumberLiteral.IsValid (NewNumberLiteral \<lparr>Literal = ''9007199254740993''\<rparr>) = True
   \<and> sint (NumberLiteral.Int (NewNumberLiteral \<lparr>Literal = ''9007199254740993''\<rparr>))
       = 9007199254740993
   \<and> float64_val (NumberLiteral.Float (NewNumberLiteral \<lparr>Literal = ''9007199254740993''\<rparr>))
       = Some 9007199254740992
   \<and> float64_val (NumberLiteral.Float (NewNumberLiteral \<lparr>Literal = ''9007199254740993''\<rparr>))
       \<noteq> Some (of_int (sint (NumberLiteral.Int
             (NewNumberLiteral \<lparr>Literal = ''9007199254740993''\<rparr>))))"
proof -
  have n: "NewNumberLiteral \<lparr>Literal = ''9007199254740993''\<rparr> =
      \<lparr>NumberLiteral.Token = \<lparr>Literal = ''9007199254740993''\<rparr>,
       NumberLiteral.Value = ''9007199254740993'',
       NumberLiteral.Float = 4845873199050653696, NumberLiteral.Int = 9007199254740993,
       NumberLiteral.IsInt = True, NumberLiteral.IsValid = True\<rparr>"
    using NewNumberLiteral_int [of "\<lparr>Literal = ''9007199254740993''\<rparr>" 9007199254740993]
    by (simp add: ParseInt_big float64_of_int64_big)
  show ?thesis
    by (simp add: n ParseInt_big float64_val_big)
qed

text \<open>
  C2. For every token literal that \<open>ParseInt\<close> rejects and \<open>ParseFloat\<close> accepts (so the
  fractional and the exponent forms, \<open>42.0\<close> among them), \<open>NewNumberLiteral\<close> clears
  \<open>IsInt\<close>, sets \<open>IsValid\<close> and stores the parsed value in \<open>Float\<close>.
\<close>

theorem NewNumberLiteral_float_parse:
  assumes "snd (ParseInt (Literal token)) \<noteq> None"
    and "ParseFloat (Literal token) = (f, None)"
  shows "NumberLiteral.IsInt (NewNumberLiteral token) = False
         \<and> NumberLiteral.IsValid (NewNumberLiteral token) = True
         \<and> NumberLiteral.Float (NewNumberLiteral token) = f"
  by (simp add: NewNumberLiteral_float [OF assms])

theorem NewNumberLiteral_float_parse_witness:
  "snd (ParseInt (Literal \<lparr>Literal = ''42.0''\<rparr>)) \<noteq> None
   \<and> ParseFloat (Literal \<lparr>Literal = ''42.0''\<rparr>) = (4631107791820423168, None)
   \<and> float64_val 4631107791820423168 = Some 42
   \<and> NumberLiteral.IsInt (NewNumberLiteral \<lparr>Literal = ''42.0''\<rparr>) = False
   \<and> NumberLiteral.IsValid (NewNumberLiteral \<lparr>Literal = ''42.0''\<rparr>) = True
   \<and> NumberLiteral.Float (NewNumberLiteral \<lparr>Literal = ''42.0''\<rparr>) = 4631107791820423168
   \<and> snd (ParseInt (Literal \<lparr>Literal = ''1e5''\<rparr>)) \<noteq> None
   \<and> ParseFloat (Literal \<lparr>Literal = ''1e5''\<rparr>) = (4681608360884174848, None)
   \<and> float64_val 4681608360884174848 = Some 100000
   \<and> NumberLiteral.IsInt (NewNumberLiteral \<lparr>Literal = ''1e5''\<rparr>) = False
   \<and> NumberLiteral.IsValid (NewNumberLiteral \<lparr>Literal = ''1e5''\<rparr>) = True
   \<and> NumberLiteral.Float (NewNumberLiteral \<lparr>Literal = ''1e5''\<rparr>) = 4681608360884174848"
  using NewNumberLiteral_float_parse [of "\<lparr>Literal = ''42.0''\<rparr>" 4631107791820423168]
    NewNumberLiteral_float_parse [of "\<lparr>Literal = ''1e5''\<rparr>" 4681608360884174848]
  by (simp add: ParseInt_42_0 ParseFloat_42_0 float64_val_42 ParseInt_1e5 ParseFloat_1e5
      float64_val_100000)

text \<open>
  C3. For every token literal that both \<open>ParseInt\<close> and \<open>ParseFloat\<close> reject,
  \<open>NewNumberLiteral\<close> returns a node with \<open>IsValid\<close> false and with \<open>Int\<close> and \<open>Float\<close>
  still at zero.
\<close>

theorem NewNumberLiteral_no_parse:
  assumes "snd (ParseInt (Literal token)) \<noteq> None"
    and "snd (ParseFloat (Literal token)) \<noteq> None"
  shows "NumberLiteral.IsValid (NewNumberLiteral token) = False
         \<and> NumberLiteral.Int (NewNumberLiteral token) = 0
         \<and> NumberLiteral.Float (NewNumberLiteral token) = 0"
  by (simp add: NewNumberLiteral_invalid [OF assms])

theorem NewNumberLiteral_no_parse_witness:
  "snd (ParseInt (Literal \<lparr>Literal = ''-''\<rparr>)) \<noteq> None
   \<and> snd (ParseFloat (Literal \<lparr>Literal = ''-''\<rparr>)) \<noteq> None
   \<and> NumberLiteral.IsValid (NewNumberLiteral \<lparr>Literal = ''-''\<rparr>) = False
   \<and> NumberLiteral.Int (NewNumberLiteral \<lparr>Literal = ''-''\<rparr>) = 0
   \<and> NumberLiteral.Float (NewNumberLiteral \<lparr>Literal = ''-''\<rparr>) = 0"
  using NewNumberLiteral_no_parse [of "\<lparr>Literal = ''-''\<rparr>"]
  by (simp add: ParseInt_minus ParseFloat_minus)

text \<open>
  C4. In every node \<open>NewNumberLiteral\<close> produces, \<open>IsInt\<close> is true exactly when \<open>ParseInt\<close>
  accepted the literal, that is when the literal is a base-10 integer with no fractional
  and no exponent part (a sign and digits) whose value fits an int64; a literal in which
  a \<open>.\<close>, an \<open>e\<close> or an \<open>E\<close> occurs has \<open>IsInt\<close> false.
\<close>

theorem IsInt_only_for_decimal_integers:
  "NumberLiteral.IsInt (NewNumberLiteral token) = (snd (ParseInt (Literal token)) = None)
   \<and> NumberLiteral.IsInt (NewNumberLiteral token)
       = (isDecimalInteger (Literal token)
          \<and> - (2 ^ 63) \<le> intValue (Literal token) \<and> intValue (Literal token) < 2 ^ 63)
   \<and> (NumberLiteral.IsInt (NewNumberLiteral token) \<longrightarrow> isDecimalInteger (Literal token))
   \<and> (CHR ''.'' \<in> set (Literal token) \<or> CHR ''e'' \<in> set (Literal token)
        \<or> CHR ''E'' \<in> set (Literal token)
       \<longrightarrow> NumberLiteral.IsInt (NewNumberLiteral token) = False)"
proof -
  have "(snd (ParseInt (Literal token)) = None)
        = (isDecimalInteger (Literal token)
           \<and> - (2 ^ 63) \<le> intValue (Literal token) \<and> intValue (Literal token) < 2 ^ 63)"
    using ParseInt_correct [of "Literal token" "fst (ParseInt (Literal token))"]
      ParseInt_correct [of "Literal token" "word_of_int (intValue (Literal token))"]
    by (cases "ParseInt (Literal token)") auto
  then show ?thesis
    using isDecimalInteger_no_fraction [of "Literal token"]
    by (auto simp: NewNumberLiteral_IsInt)
qed

theorem IsInt_only_for_decimal_integers_witness:
  "NumberLiteral.IsInt (NewNumberLiteral \<lparr>Literal = ''42''\<rparr>)
   \<and> isDecimalInteger (Literal \<lparr>Literal = ''42''\<rparr>)
   \<and> CHR ''e'' \<in> set (Literal \<lparr>Literal = ''1e5''\<rparr>)
   \<and> NumberLiteral.IsInt (NewNumberLiteral \<lparr>Literal = ''1e5''\<rparr>) = False
   \<and> CHR ''.'' \<in> set (Literal \<lparr>Literal = ''42.0''\<rparr>)
   \<and> NumberLiteral.IsInt (NewNumberLiteral \<lparr>Literal = ''42.0''\<rparr>) = False"
  using IsInt_only_for_decimal_integers [of "\<lparr>Literal = ''42''\<rparr>"]
    IsInt_only_for_decimal_integers [of "\<lparr>Literal = ''1e5''\<rparr>"]
    IsInt_only_for_decimal_integers [of "\<lparr>Literal = ''42.0''\<rparr>"]
  by (simp add: ParseInt_def ParseUint_def isDigit_def)

text \<open>
  C5. For the literal \<open>1e400\<close> the node is invalid, or valid with \<open>IsInt\<close> false; it never
  claims a valid integer. The code's policy is the first: \<open>ParseInt\<close> rejects the
  exponent, \<open>ParseFloat\<close> reports the overflow as a range error, and the node is invalid,
  with the infinity \<open>ParseFloat\<close> returned dropped and both numeric fields at zero.
\<close>

theorem NewNumberLiteral_1e400:
  "(NumberLiteral.IsValid (NewNumberLiteral \<lparr>Literal = ''1e400'', \<dots> = ext\<rparr>) = False
    \<or> NumberLiteral.IsValid (NewNumberLiteral \<lparr>Literal = ''1e400'', \<dots> = ext\<rparr>) = True
      \<and> NumberLiteral.IsInt (NewNumberLiteral \<lparr>Literal = ''1e400'', \<dots> = ext\<rparr>) = False)
   \<and> \<not> (NumberLiteral.IsValid (NewNumberLiteral \<lparr>Literal = ''1e400'', \<dots> = ext\<rparr>)
          \<and> NumberLiteral.IsInt (NewNumberLiteral \<lparr>Literal = ''1e400'', \<dots> = ext\<rparr>))
   \<and> ParseFloat ''1e400'' = (math_Inf False, Some ErrRange)
   \<and> NumberLiteral.IsValid (NewNumberLiteral \<lparr>Literal = ''1e400'', \<dots> = ext\<rparr>) = False
   \<and> NumberLiteral.IsInt (NewNumberLiteral \<lparr>Literal = ''1e400'', \<dots> = ext\<rparr>) = False
   \<and> NumberLiteral.Int (NewNumberLiteral \<lparr>Literal = ''1e400'', \<dots> = ext\<rparr>) = 0
   \<and> NumberLiteral.Float (NewNumberLiteral \<lparr>Literal = ''1e400'', \<dots> = ext\<rparr>) = 0"
proof -
  have "NewNumberLiteral \<lparr>Literal = ''1e400'', \<dots> = ext\<rparr> =
      \<lparr>NumberLiteral.Token = \<lparr>Literal = ''1e400'', \<dots> = ext\<rparr>,
       NumberLiteral.Value = ''1e400'', NumberLiteral.Float = 0, NumberLiteral.Int = 0,
       NumberLiteral.IsInt = False, NumberLiteral.IsValid = False\<rparr>"
    using NewNumberLiteral_invalid [of "\<lparr>Literal = ''1e400'', \<dots> = ext\<rparr>"]
    by (simp add: ParseInt_1e400 ParseFloat_1e400)
  then show ?thesis by (simp add: ParseFloat_1e400)
qed

text \<open>
  C10. For every node \<open>NewNumberLiteral\<close> produces from a literal that neither parser
  accepts (so \<open>IsValid\<close> is false), \<open>String()\<close> is \<open>0.000000\<close>, the \<open>%f\<close> rendering of the
  zero left in \<open>Float\<close>, and not the text of the literal.
\<close>

theorem invalid_NumberLiteral_String:
  assumes "snd (ParseInt (Literal token)) \<noteq> None"
    and "snd (ParseFloat (Literal token)) \<noteq> None"
  shows "NumberLiteral.IsValid (NewNumberLiteral token) = False
         \<and> NumberLiteral_String (NewNumberLiteral token) = ''0.000000''"
  by (simp add: NewNumberLiteral_invalid [OF assms] NumberLiteral_String_def Sprintf_f_zero)

theorem invalid_NumberLiteral_String_witness:
  "snd (ParseInt (Literal \<lparr>Literal = ''1e400''\<rparr>)) \<noteq> None
   \<and> snd (ParseFloat (Literal \<lparr>Literal = ''1e400''\<rparr>)) \<noteq> None
   \<and> NumberLiteral.IsValid (NewNumberLiteral \<lparr>Literal = ''1e400''\<rparr>) = False
   \<and> NumberLiteral_String (NewNumberLiteral \<lparr>Literal = ''1e400''\<rparr>) = ''0.000000''
   \<and> NumberLiteral_String (NewNumberLiteral \<lparr>Literal = ''1e400''\<rparr>) \<noteq> ''1e400''"
  using invalid_NumberLiteral_String [of "\<lparr>Literal = ''1e400''\<rparr>"]
  by (simp add: ParseInt_1e400 ParseFloat_1e400)

subsection \<open>The accessors\<close>

text \<open>
  C6. For every Array, whatever its token and however many elements of whatever kind it
  holds, \<open>String()\<close> is the fixed placeholder \<open>[]\<close>: nothing of the elements appears in it,
  also when the call goes through the \<open>Value\<close> interface.
\<close>

theorem Array_String_placeholder:
  "Array_String (Array tok elems) = ''[]''
   \<and> String (ArrayNode (Array tok elems)) s = (s = ''[]'')"
  by (auto simp: Array_String_def String.simps)

text \<open>
  C7. \<open>Object.String\<close> lists the pairs in the order the range over the map yields them:
  its possible results are the displays \<open>{k1: v1, k2: v2, ...}\<close> of the pairs taken in
  any order of the keys. So the result is not fixed by the object: the object with the
  two pairs \<open>a: null\<close> and \<open>b: null\<close> can display as \<open>{a: null, b: null}\<close> and as
  \<open>{b: null, a: null}\<close>, on two calls.
\<close>

theorem Object_String_any_order:
  "Object_String ob s =
     (\<exists>ks vss. distinct ks \<and> set ks = fmdom' (Pairs ob)
        \<and> list_all2 (\<lambda>k vs. \<exists>v. fmlookup (Pairs ob) k = Some v \<and> String v vs) ks vss
        \<and> s = pairs_display (zip ks vss))
   \<and> Object_String
        (Object t (fmap_of_list [(''a'', NullNode \<lparr>Null.Token = t1\<rparr>),
                                 (''b'', NullNode \<lparr>Null.Token = t2\<rparr>)]))
        ''{a: null, b: null}''
   \<and> Object_String
        (Object t (fmap_of_list [(''a'', NullNode \<lparr>Null.Token = t1\<rparr>),
                                 (''b'', NullNode \<lparr>Null.Token = t2\<rparr>)]))
        ''{b: null, a: null}''
   \<and> ''{a: null, b: null}'' \<noteq> ''{b: null, a: null}''"
  using Object_String_iff [of ob s] Object_String_ab [of t t1 t2] by simp

text \<open>
  C8. For a node of each of the six types, \<open>TokenLiteral()\<close>, called on the node or through
  the \<open>Value\<close> interface, is the \<open>Literal\<close> field of the token recorded in the node.
\<close>

theorem TokenLiteral_is_token_literal:
  "TokenLiteral (ObjectNode (Object tok pairs)) = Literal tok
   \<and> TokenLiteral (ArrayNode (Array tok elems)) = Literal tok
   \<and> TokenLiteral (StringLiteralNode \<lparr>StringLiteral.Token = tok, StringLiteral.Value = sv\<rparr>)
      = Literal tok
   \<and> TokenLiteral (NumberLiteralNode
        \<lparr>NumberLiteral.Token = tok, NumberLiteral.Value = nv, NumberLiteral.Float = f,
         NumberLiteral.Int = i, NumberLiteral.IsInt = isint, NumberLiteral.IsValid = isvalid\<rparr>)
      = Literal tok
   \<and> TokenLiteral (BooleanNode \<lparr>Boolean.Token = tok, Boolean.Value = bv\<rparr>) = Literal tok
   \<and> TokenLiteral (NullNode \<lparr>Null.Token = tok\<rparr>) = Literal tok"
  by (simp add: Object_TokenLiteral_def Array_TokenLiteral_def StringLiteral_TokenLiteral_def
      NumberLiteral_TokenLiteral_def Boolean_TokenLiteral_def Null_TokenLiteral_def)

text \<open>
  C9. The \<open>String()\<close> of a Boolean node is its token's literal, and the \<open>Value\<close> field plays
  no part in it: two Boolean nodes with the same token and any two \<open>Value\<close> fields display
  the same.
\<close>

theorem Boolean_String_ignores_Value:
  "Boolean_String \<lparr>Boolean.Token = tok, Boolean.Value = v1\<rparr> = Literal tok
   \<and> Boolean_String \<lparr>Boolean.Token = tok, Boolean.Value = v1\<rparr>
      = Boolean_String \<lparr>Boolean.Token = tok, Boolean.Value = v2\<rparr>"
  by (simp add: Boolean_String_def)

end
